theory Spec2Isabelle
  imports Main "HOL-Library.Sublist"
begin

section \<open>JavaScript primitives used by the engine\<close>

text \<open>
  Strings are lists of 8-bit characters.  The numbers of a configuration and of the
  access log (durations, allowances, weekdays, timestamps, tab ids) and the numbers that
  the engine computes from them (counts, minutes of the day, epoch milliseconds) are
  integers.  A number that may be \<open>NaN\<close> (the result of \<open>parseInt\<close>) is an
  \<open>int option\<close>, \<open>None\<close> being \<open>NaN\<close>.
\<close>

text \<open>\<open>s.split(c)\<close> for a one-character separator: never the empty array.\<close>

fun js_split :: "char \<Rightarrow> string \<Rightarrow> string list" where
  "js_split c [] = [[]]"
| "js_split c (x # xs) =
     (if x = c then [] # js_split c xs
      else (case js_split c xs of [] \<Rightarrow> [[x]] | w # ws \<Rightarrow> (x # w) # ws))"

text \<open>\<open>parts.join(sep)\<close>.\<close>

fun js_join :: "string \<Rightarrow> string list \<Rightarrow> string" where
  "js_join sep [] = []"
| "js_join sep [x] = x"
| "js_join sep (x # y # ys) = x @ sep @ js_join sep (y # ys)"

text \<open>\<open>s.slice(b, e)\<close> for indices \<open>0 \<le> b \<le> e\<close>.\<close>

definition js_slice :: "nat \<Rightarrow> nat \<Rightarrow> string \<Rightarrow> string" where
  "js_slice b e s = take (e - b) (drop b s)"

definition isWhiteSpace :: "char \<Rightarrow> bool" where
  "isWhiteSpace c = (of_char c \<in> {9, 10, 11, 12, 13, 32, 160 :: nat})"

definition isDigit :: "char \<Rightarrow> bool" where
  "isDigit c = (48 \<le> (of_char c :: nat) \<and> (of_char c :: nat) \<le> 57)"

definition digitVal :: "char \<Rightarrow> nat" where
  "digitVal c = of_char c - 48"

definition digitsVal :: "string \<Rightarrow> nat" where
  "digitsVal ds = foldl (\<lambda>n c. 10 * n + digitVal c) 0 ds"

text \<open>
  \<open>parseInt(s, 10)\<close>: leading white space is skipped, one sign is read, then the longest
  run of decimal digits; no digit at all gives \<open>NaN\<close>.
\<close>

definition parseInt :: "string \<Rightarrow> int option" where
  "parseInt s =
     (let t = dropWhile isWhiteSpace s;
          neg = (case t of [] \<Rightarrow> False | c # _ \<Rightarrow> c = CHR ''-'');
          u = (case t of [] \<Rightarrow> [] | c # r \<Rightarrow> if c = CHR ''-'' \<or> c = CHR ''+'' then r else t);
          ds = takeWhile isDigit u
      in if ds = [] then None
         else Some (if neg then - int (digitsVal ds) else int (digitsVal ds)))"

section \<open>The platform: URL parser and clock\<close>

text \<open>
  The engine calls the host's \<open>new URL(url)\<close>, which either throws or yields an object
  with a \<open>hostname\<close> and a \<open>pathname\<close>.  The parser is not part of the repository;
  every function that parses takes it as the parameter \<open>URL\<close>, \<open>None\<close> meaning
  that the constructor throws.
\<close>

record url =
  hostname :: string
  pathname :: string

type_synonym url_parser = "string \<Rightarrow> url option"

text \<open>
  A reading of the host clock: \<open>getTime\<close> is what \<open>Date.now()\<close> returns (epoch
  milliseconds); \<open>getDay\<close>, \<open>getHours\<close> and \<open>getMinutes\<close> are the local wall-clock
  fields of the same reading.  The engine has no \<open>now\<close> argument: it reads the clock
  by \<open>Date.now()\<close> and \<open>new Date()\<close>.  The clock is the sequence of its readings, and
  every function that may read it takes the number of readings made so far and returns
  the number made after it.
\<close>

record date =
  getTime :: int
  getDay :: int
  getHours :: int
  getMinutes :: int

type_synonym clock = "nat \<Rightarrow> date"

section \<open>URL matching (\<open>url-matcher.js\<close>)\<close>

text \<open>
  \<open>extractDomain\<close> and \<open>extractPath\<close> catch the parser's exception and return the
  empty string; the line they write to the console in that case is not modelled.
\<close>

definition extractDomain :: "url_parser \<Rightarrow> string \<Rightarrow> string" where
  "extractDomain URL u = (case URL u of None \<Rightarrow> [] | Some urlObj \<Rightarrow> hostname urlObj)"

definition extractPath :: "url_parser \<Rightarrow> string \<Rightarrow> string" where
  "extractPath URL u = (case URL u of None \<Rightarrow> [] | Some urlObj \<Rightarrow> pathname urlObj)"

text \<open>
  \<open>matchesSitePattern(url, pattern)\<close>.  The branch for an empty \<open>patternParts\<close> cannot
  be taken (\<open>split\<close> returns at least one part).
\<close>

definition matchesSitePattern :: "url_parser \<Rightarrow> string \<Rightarrow> string \<Rightarrow> bool" where
  "matchesSitePattern URL u pattern =
     (let domain = extractDomain URL u;
          path = extractPath URL u
      in if domain = [] \<or> pattern = [] then False
         else (case js_split CHR ''/'' pattern of
                 [] \<Rightarrow> False
               | patternDomain # rest \<Rightarrow>
                   (let patternPath = js_join ''/'' rest;
                        domainMatches =
                          (domain = patternDomain \<or> suffix (''.'' @ patternDomain) domain)
                    in if \<not> domainMatches then False
                       else if patternPath = [] then True
                       else (let normalizedPath =
                                   (if prefix ''/'' path then drop 1 path else path)
                             in normalizedPath = patternPath
                                \<or> prefix (patternPath @ ''/'') normalizedPath))))"

section \<open>Schedules (\<open>time-utils.js\<close>)\<close>

datatype error = TypeError

record time =
  hours :: "int option"
  minutes :: "int option"

text \<open>
  \<open>parseTimeRange(timeString)\<close>: \<open>[start, end] = timeString.split('-')\<close>; when the
  string has no \<open>-\<close>, \<open>end\<close> is \<open>undefined\<close> and \<open>end.slice\<close> throws.
\<close>

definition parseTimeRange :: "string \<Rightarrow> error + (time \<times> time)" where
  "parseTimeRange timeString =
     (case js_split CHR ''-'' timeString of
        [] \<Rightarrow> Inl TypeError
      | [start] \<Rightarrow> Inl TypeError
      | start # end # _ \<Rightarrow>
          Inr (\<lparr>hours = parseInt (js_slice 0 2 start), minutes = parseInt (js_slice 2 4 start)\<rparr>,
               \<lparr>hours = parseInt (js_slice 0 2 end), minutes = parseInt (js_slice 2 4 end)\<rparr>))"

text \<open>\<open>t.hours * 60 + t.minutes\<close>, \<open>NaN\<close> as soon as one field is.\<close>

definition toMinutes :: "time \<Rightarrow> int option" where
  "toMinutes t =
     (case hours t of None \<Rightarrow> None
      | Some h \<Rightarrow> (case minutes t of None \<Rightarrow> None | Some m \<Rightarrow> Some (h * 60 + m)))"

text \<open>\<open>isTimeInRange\<close>: a comparison with \<open>NaN\<close> is false.\<close>

definition isTimeInRange :: "date \<Rightarrow> time \<Rightarrow> time \<Rightarrow> bool" where
  "isTimeInRange currentTime startTime endTime =
     (let currentMinutes = getHours currentTime * 60 + getMinutes currentTime
      in (case toMinutes startTime of None \<Rightarrow> False
          | Some startMinutes \<Rightarrow>
              (case toMinutes endTime of None \<Rightarrow> False
               | Some endMinutes \<Rightarrow>
                   currentMinutes \<ge> startMinutes \<and> currentMinutes \<le> endMinutes)))"

text \<open>
  A schedule object; a field that is missing (\<open>undefined\<close> or \<open>null\<close>) is \<open>None\<close>.
  An array, even an empty one, is truthy.
\<close>

record schedule =
  days :: "int list option"
  times_sched :: "string list option"

text \<open>The \<open>for\<close> loop of \<open>isRuleActiveNow\<close> over \<open>schedule.times\<close>.\<close>

fun anyTimeRange :: "date \<Rightarrow> string list \<Rightarrow> error + bool" where
  "anyTimeRange now [] = Inr False"
| "anyTimeRange now (timeRange # rest) =
     (case parseTimeRange timeRange of
        Inl e \<Rightarrow> Inl e
      | Inr (start, end) \<Rightarrow>
          if isTimeInRange now start end then Inr True else anyTimeRange now rest)"

definition isRuleActiveNow ::
  "clock \<Rightarrow> schedule option \<Rightarrow> nat \<Rightarrow> (error + bool) \<times> nat" where
  "isRuleActiveNow clk sched k =
     (case sched of
        None \<Rightarrow> (Inr True, k)
      | Some s \<Rightarrow>
          (case days s of
             None \<Rightarrow> (Inr True, k)
           | Some ds \<Rightarrow>
               (case times_sched s of
                  None \<Rightarrow> (Inr True, k)
                | Some ts \<Rightarrow>
                    (let now = clk k;
                         currentDay = getDay now
                     in if currentDay \<notin> set ds then (Inr False, Suc k)
                        else (anyTimeRange now ts, Suc k)))))"

section \<open>Access accounting (\<open>access-calculator.js\<close>)\<close>

record accessLog =
  site :: string
  timestamp :: int
  tabId :: int

text \<open>\<open>filterAccessesInWindow\<close> reads the clock once, by \<open>Date.now()\<close>.\<close>

definition filterAccessesInWindow ::
  "clock \<Rightarrow> accessLog list \<Rightarrow> int \<Rightarrow> nat \<Rightarrow> accessLog list \<times> nat" where
  "filterAccessesInWindow clk accesses durationMinutes k =
     (let now = getTime (clk k);
          windowStart = now - (durationMinutes * 60 * 1000)
      in (filter (\<lambda>access. timestamp access \<ge> windowStart) accesses, Suc k))"

text \<open>
  The callback given to \<open>sites.some\<close> in strict mode.  Its last three returns are the
  source's: the path of the pattern is computed and then not used.
\<close>

definition strictSiteMatches :: "string \<Rightarrow> string \<Rightarrow> bool" where
  "strictSiteMatches accessSite sitePattern =
     (case js_split CHR ''/'' sitePattern of
        [] \<Rightarrow> False
      | patternDomain # rest \<Rightarrow>
          (let patternPath = js_join ''/'' rest;
               domainMatches =
                 (accessSite = patternDomain \<or> suffix (''.'' @ patternDomain) accessSite)
           in if \<not> domainMatches then False
              else if patternPath = [] then True
              else True))"

definition calculateRemainingAccesses ::
  "clock \<Rightarrow> accessLog list \<Rightarrow> int \<Rightarrow> int \<Rightarrow> bool \<Rightarrow> string list \<Rightarrow> string \<Rightarrow> nat
     \<Rightarrow> int \<times> nat" where
  "calculateRemainingAccesses clk accesses maxAcc durationMinutes strict sitesInGroup
       currentSite k =
     (case filterAccessesInWindow clk accesses durationMinutes k of
        (recentAccesses, k') \<Rightarrow>
          (let relevantAccesses =
                 (if strict
                  then filter (\<lambda>access.
                         list_ex (\<lambda>sitePattern. strictSiteMatches (site access) sitePattern)
                           sitesInGroup) recentAccesses
                  else filter (\<lambda>access. site access = currentSite) recentAccesses);
               accessCount = int (length relevantAccesses);
               remaining = maxAcc - accessCount
           in (max 0 remaining, k')))"

section \<open>Rule engine (\<open>rule-engine.js\<close>)\<close>

record ruleGroup =
  name :: string
  duration :: int
  maxAccesses :: int
  strictMode :: bool
  sites :: "string list"
  schedule :: "schedule option"

text \<open>A configuration may be \<open>null\<close>, and its \<open>groups\<close> may be missing.\<close>

record configuration =
  groups :: "ruleGroup list option"

text \<open>
  The \<open>filter\<close> of \<open>getActiveRulesForSite\<close> over \<open>config.groups\<close>: the callback is run
  on each group in order, and a throw of the schedule check ends the whole call.
\<close>

fun filterActive ::
  "url_parser \<Rightarrow> clock \<Rightarrow> string \<Rightarrow> ruleGroup list \<Rightarrow> nat \<Rightarrow> (error + ruleGroup list) \<times> nat"
  where
  "filterActive URL clk s [] k = (Inr [], k)"
| "filterActive URL clk s (grp # rest) k =
     (case isRuleActiveNow clk (schedule grp) k of
        (Inl e, k') \<Rightarrow> (Inl e, k')
      | (Inr active, k') \<Rightarrow>
          (let keep =
                 (if \<not> active then False
                  else (let siteUrl = ''https://'' @ s
                        in list_ex (\<lambda>pattern. matchesSitePattern URL siteUrl pattern)
                             (sites grp)))
           in (case filterActive URL clk s rest k' of
                 (Inl e, k'') \<Rightarrow> (Inl e, k'')
               | (Inr kept, k'') \<Rightarrow> (Inr (if keep then grp # kept else kept), k''))))"

definition getActiveRulesForSite ::
  "url_parser \<Rightarrow> clock \<Rightarrow> string \<Rightarrow> configuration option \<Rightarrow> nat
     \<Rightarrow> (error + ruleGroup list) \<times> nat" where
  "getActiveRulesForSite URL clk s config k =
     (case config of
        None \<Rightarrow> (Inr [], k)
      | Some c \<Rightarrow>
          (case groups c of
             None \<Rightarrow> (Inr [], k)
           | Some gs \<Rightarrow> filterActive URL clk s gs k))"

text \<open>The block decision: \<open>{block: false}\<close> or the object naming the rule.\<close>

datatype blockDecision =
  NoBlock
| Block (reason: string) (ruleName: string) (blockDuration: int) (blockMaxAccesses: int)

text \<open>The \<open>for\<close> loop of \<open>shouldBlockAccess\<close> over the active rules.\<close>

fun firstExhausted ::
  "clock \<Rightarrow> accessLog list \<Rightarrow> string \<Rightarrow> ruleGroup list \<Rightarrow> nat \<Rightarrow> blockDecision \<times> nat" where
  "firstExhausted clk accessLogs s [] k = (NoBlock, k)"
| "firstExhausted clk accessLogs s (rule # rest) k =
     (case calculateRemainingAccesses clk accessLogs (maxAccesses rule) (duration rule)
             (strictMode rule) (sites rule) s k of
        (remaining, k') \<Rightarrow>
          if remaining \<le> 0
          then (Block (''Access limit reached for rule '' @ [CHR 0x22] @ name rule @ [CHR 0x22])
                  (name rule) (duration rule) (maxAccesses rule), k')
          else firstExhausted clk accessLogs s rest k')"

definition shouldBlockAccess ::
  "url_parser \<Rightarrow> clock \<Rightarrow> string \<Rightarrow> configuration option \<Rightarrow> accessLog list \<Rightarrow> nat
     \<Rightarrow> (error + blockDecision) \<times> nat" where
  "shouldBlockAccess URL clk s config accessLogs k =
     (case getActiveRulesForSite URL clk s config k of
        (Inl e, k') \<Rightarrow> (Inl e, k')
      | (Inr activeRules, k') \<Rightarrow>
          if length activeRules = 0 then (Inr NoBlock, k')
          else (case firstExhausted clk accessLogs s activeRules k' of
                  (d, k'') \<Rightarrow> (Inr d, k'')))"

text \<open>\<open>lowestRemaining\<close> starts at \<open>Infinity\<close>.\<close>

datatype jsnum = Infinity | Num int

fun js_min :: "jsnum \<Rightarrow> int \<Rightarrow> jsnum" where
  "js_min Infinity r = Num r"
| "js_min (Num a) r = Num (min a r)"

text \<open>The \<open>for\<close> loop of \<open>getMostRestrictiveCount\<close>.\<close>

fun lowestLoop ::
  "clock \<Rightarrow> accessLog list \<Rightarrow> string \<Rightarrow> ruleGroup list \<Rightarrow> jsnum \<Rightarrow> nat \<Rightarrow> jsnum \<times> nat" where
  "lowestLoop clk accessLogs s [] lowestRemaining k = (lowestRemaining, k)"
| "lowestLoop clk accessLogs s (rule # rest) lowestRemaining k =
     (case calculateRemainingAccesses clk accessLogs (maxAccesses rule) (duration rule)
             (strictMode rule) (sites rule) s k of
        (remaining, k') \<Rightarrow>
          lowestLoop clk accessLogs s rest (js_min lowestRemaining remaining) k')"

text \<open>\<open>getMostRestrictiveCount\<close>: \<open>None\<close> is \<open>null\<close>.\<close>

definition getMostRestrictiveCount ::
  "url_parser \<Rightarrow> clock \<Rightarrow> string \<Rightarrow> configuration option \<Rightarrow> accessLog list \<Rightarrow> nat
     \<Rightarrow> (error + int option) \<times> nat" where
  "getMostRestrictiveCount URL clk s config accessLogs k =
     (case getActiveRulesForSite URL clk s config k of
        (Inl e, k') \<Rightarrow> (Inl e, k')
      | (Inr activeRules, k') \<Rightarrow>
          if length activeRules = 0 then (Inr None, k')
          else (case lowestLoop clk accessLogs s activeRules Infinity k' of
                  (lowestRemaining, k'') \<Rightarrow>
                    (Inr (case lowestRemaining of Infinity \<Rightarrow> None | Num n \<Rightarrow> Some n), k'')))"

text \<open>
  \<open>calculateUnblockTime\<close> reads no clock.  The relevant logs are sorted by timestamp
  (the sort is stable) and the first one is taken; \<open>None\<close> is \<open>null\<close>, and a date is
  given by its epoch milliseconds.
\<close>

definition calculateUnblockTime ::
  "url_parser \<Rightarrow> string \<Rightarrow> ruleGroup \<Rightarrow> accessLog list \<Rightarrow> int option" where
  "calculateUnblockTime URL s rule accessLogs =
     (let relevantLogs =
            (if strictMode rule
             then filter (\<lambda>log.
                    list_ex (\<lambda>pattern.
                       (let logUrl = ''https://'' @ site log
                        in matchesSitePattern URL logUrl pattern)) (sites rule)) accessLogs
             else filter (\<lambda>log. site log = s) accessLogs)
      in (case sort_key timestamp relevantLogs of
            [] \<Rightarrow> None
          | oldestAccess # _ \<Rightarrow> Some (timestamp oldestAccess + (duration rule * 60 * 1000))))"

section \<open>A small URL parser for running the model\<close>

text \<open>
  The theorems below hold for every parser.  To run the engine on concrete inputs a
  parser is needed; \<open>simpleURL\<close> reads \<open>http://\<close> or \<open>https://\<close>, a non-empty host up to
  the first of \<open>/ ? # :\<close>, an optional port, and the path up to \<open>?\<close> or \<open>#\<close> (\<open>/\<close>
  when there is none), and rejects every other string.  On the URLs that the
  repository's tests use it returns the host and path that the tests expect.
\<close>

definition simpleURL :: url_parser where
  "simpleURL u =
     (let afterScheme =
            (if prefix ''https://'' u then Some (drop 8 u)
             else if prefix ''http://'' u then Some (drop 7 u) else None)
      in (case afterScheme of
            None \<Rightarrow> None
          | Some r \<Rightarrow>
              (let host = takeWhile (\<lambda>c. c \<notin> set ''/?#:'') r;
                   afterHost = dropWhile (\<lambda>c. c \<notin> set ''/?#:'') r;
                   afterPort = (case afterHost of
                                  [] \<Rightarrow> []
                                | c # cs \<Rightarrow> if c = CHR '':'' then dropWhile isDigit cs
                                            else afterHost);
                   p = takeWhile (\<lambda>c. c \<notin> set ''?#'') afterPort
               in if host = [] then None
                  else Some \<lparr>hostname = host,
                             pathname = (if p = [] then ''/'' else p)\<rparr>)))"

section \<open>Reference definitions, in the words of the specification\<close>

text \<open>
  A pattern is split on its first \<open>/\<close> into its domain and its optional path; the
  destination's path is compared with its leading slash removed.
\<close>

definition spec_patternDomain :: "string \<Rightarrow> string" where
  "spec_patternDomain pattern = takeWhile (\<lambda>c. c \<noteq> CHR ''/'') pattern"

definition spec_patternPath :: "string \<Rightarrow> string" where
  "spec_patternPath pattern = drop 1 (dropWhile (\<lambda>c. c \<noteq> CHR ''/'') pattern)"

definition spec_strippedPath :: "string \<Rightarrow> string" where
  "spec_strippedPath p = (case p of [] \<Rightarrow> [] | c # r \<Rightarrow> if c = CHR ''/'' then r else p)"

text \<open>Domain-level matching: the site is the pattern's domain or one of its subdomains.\<close>

definition spec_domainMatches :: "string \<Rightarrow> string \<Rightarrow> bool" where
  "spec_domainMatches s pattern =
     (s = spec_patternDomain pattern \<or> suffix (''.'' @ spec_patternDomain pattern) s)"

text \<open>
  A time range is written \<open>HHMM-HHMM\<close> (the storage layer accepts exactly the strings
  matching \<open>^\d{4}-\d{4}$\<close>); it stands for the minutes of the day from
  \<open>HH * 60 + MM\<close> of its first half to that of its second half, both included.
\<close>

definition validTimeLiteral :: "string \<Rightarrow> bool" where
  "validTimeLiteral t =
     (length t = 9 \<and> list_all isDigit (take 4 t) \<and> t ! 4 = CHR ''-''
        \<and> list_all isDigit (drop 5 t))"

definition spec_minuteOfDay :: "string \<Rightarrow> int" where
  "spec_minuteOfDay hhmm =
     int ((10 * digitVal (hhmm ! 0) + digitVal (hhmm ! 1)) * 60
          + (10 * digitVal (hhmm ! 2) + digitVal (hhmm ! 3)))"

definition spec_rangeStart :: "string \<Rightarrow> int" where
  "spec_rangeStart t = spec_minuteOfDay (take 4 t)"

definition spec_rangeEnd :: "string \<Rightarrow> int" where
  "spec_rangeEnd t = spec_minuteOfDay (drop 5 t)"

definition spec_inRange :: "date \<Rightarrow> string \<Rightarrow> bool" where
  "spec_inRange now t =
     (spec_rangeStart t \<le> getHours now * 60 + getMinutes now
        \<and> getHours now * 60 + getMinutes now \<le> spec_rangeEnd t)"

text \<open>
  The specification's operations take the instant as an argument.  The engine at the
  instant \<open>now\<close> is the engine run on the clock whose every reading is \<open>now\<close> (the
  repository's tests replace \<open>Date\<close> by such a clock).
\<close>

definition frozen :: "date \<Rightarrow> clock" where
  "frozen now = (\<lambda>_. now)"

definition activeAt :: "date \<Rightarrow> schedule option \<Rightarrow> error + bool" where
  "activeAt now sched = fst (isRuleActiveNow (frozen now) sched 0)"

text \<open>A rule group applies to a site at an instant: it is active and one of its patterns matches.\<close>

definition appliesTo :: "url_parser \<Rightarrow> date \<Rightarrow> string \<Rightarrow> ruleGroup \<Rightarrow> bool" where
  "appliesTo URL now s g =
     (activeAt now (schedule g) = Inr True
        \<and> (\<exists>pattern\<in>set (sites g). matchesSitePattern URL (''https://'' @ s) pattern))"

definition configGroups :: "configuration option \<Rightarrow> ruleGroup list" where
  "configGroups config =
     (case config of None \<Rightarrow> [] | Some c \<Rightarrow> (case groups c of None \<Rightarrow> [] | Some gs \<Rightarrow> gs))"

text \<open>\<open>remainingAccesses\<close> of a rule group for a site at an instant.\<close>

definition remainingAt :: "date \<Rightarrow> accessLog list \<Rightarrow> string \<Rightarrow> ruleGroup \<Rightarrow> int" where
  "remainingAt now logs s r =
     fst (calculateRemainingAccesses (frozen now) logs (maxAccesses r) (duration r)
            (strictMode r) (sites r) s 0)"

text \<open>The decision that names a rule group as the blocking one.\<close>

definition blockedBy :: "ruleGroup \<Rightarrow> blockDecision" where
  "blockedBy r =
     Block (''Access limit reached for rule '' @ [CHR 0x22] @ name r @ [CHR 0x22])
       (name r) (duration r) (maxAccesses r)"

text \<open>Every time range of every schedule of the configuration is well formed.\<close>

definition validSchedule :: "schedule option \<Rightarrow> bool" where
  "validSchedule sched =
     (case sched of None \<Rightarrow> True
      | Some s \<Rightarrow> (case times_sched s of None \<Rightarrow> True | Some ts \<Rightarrow> list_all validTimeLiteral ts))"

text \<open>
  Two clocks give the same readings from the \<open>k\<close>-th reading up to, and not including,
  the \<open>k'\<close>-th.
\<close>

definition sameReadings :: "nat \<Rightarrow> nat \<Rightarrow> clock \<Rightarrow> clock \<Rightarrow> bool" where
  "sameReadings k k' clk clk' = list_all (\<lambda>i. clk i = clk' i) [k..<k']"

section \<open>Example data\<close>

text \<open>
  The instants of the tests, for a host whose local time is UTC: Monday 1 January 2024
  at 08:00, 10:00 and 17:00, and Sunday 7 January 2024 at 10:00.
\<close>

definition monday0800 :: date where
  "monday0800 = \<lparr>getTime = 1704096000000, getDay = 1, getHours = 8, getMinutes = 0\<rparr>"

definition monday1000 :: date where
  "monday1000 = \<lparr>getTime = 1704103200000, getDay = 1, getHours = 10, getMinutes = 0\<rparr>"

definition monday1700 :: date where
  "monday1700 = \<lparr>getTime = 1704128400000, getDay = 1, getHours = 17, getMinutes = 0\<rparr>"

definition sunday1000 :: date where
  "sunday1000 = \<lparr>getTime = 1704621600000, getDay = 0, getHours = 10, getMinutes = 0\<rparr>"

text \<open>One millisecond after \<open>monday1700\<close>: still 17:00 on the wall clock.\<close>

definition monday1700_1ms :: date where
  "monday1700_1ms = \<lparr>getTime = 1704128400001, getDay = 1, getHours = 17, getMinutes = 0\<rparr>"

text \<open>A clock whose first reading is \<open>monday1700\<close> and whose later readings are one millisecond on.\<close>

definition tickingClock :: clock where
  "tickingClock i = (if i = 0 then monday1700 else monday1700_1ms)"

text \<open>A clock that has the first two readings of \<open>tickingClock\<close> and differs afterwards.\<close>

definition otherClock :: clock where
  "otherClock i = (if i = 0 then monday1700 else if i = 1 then monday1700_1ms else sunday1000)"

text \<open>The rule groups of \<open>tests/fixtures/test-data.js\<close>.\<close>

definition weekdays :: schedule where
  "weekdays = \<lparr>days = Some [1, 2, 3, 4, 5], times_sched = Some [''0900-1700'']\<rparr>"

definition simpleRule :: ruleGroup where
  "simpleRule = \<lparr>name = ''Simple Rule'', duration = 60, maxAccesses = 3, strictMode = False,
                  sites = [''example.com''], schedule = None\<rparr>"

definition withSchedule :: ruleGroup where
  "withSchedule = \<lparr>name = ''Work Hours'', duration = 480, maxAccesses = 10, strictMode = False,
                    sites = [''slack.com'', ''email.com''], schedule = Some weekdays\<rparr>"

definition socialMedia :: ruleGroup where
  "socialMedia = \<lparr>name = ''Social Media'', duration = 120, maxAccesses = 5, strictMode = True,
                   sites = [''twitter.com'', ''facebook.com'', ''instagram.com''],
                   schedule = None\<rparr>"

text \<open>Rule groups that all cover \<open>example.com\<close>, with allowances 10, 2 and 1.\<close>

definition groupB :: ruleGroup where
  "groupB = \<lparr>name = ''Group B'', duration = 60, maxAccesses = 10, strictMode = False,
              sites = [''example.com''], schedule = None\<rparr>"

definition groupA :: ruleGroup where
  "groupA = \<lparr>name = ''Group A'', duration = 60, maxAccesses = 2, strictMode = False,
              sites = [''example.com''], schedule = Some weekdays\<rparr>"

definition groupC :: ruleGroup where
  "groupC = \<lparr>name = ''Group C'', duration = 60, maxAccesses = 1, strictMode = False,
              sites = [''example.com''], schedule = None\<rparr>"

definition threeGroups :: "configuration option" where
  "threeGroups = Some \<lparr>groups = Some [groupB, groupA, groupC]\<rparr>"

text \<open>Two visits of \<open>example.com\<close>, one and two seconds before \<open>monday1000\<close>.\<close>

definition twoVisits :: "accessLog list" where
  "twoVisits = [\<lparr>site = ''example.com'', timestamp = 1704103199000, tabId = 1\<rparr>,
                \<lparr>site = ''example.com'', timestamp = 1704103198000, tabId = 2\<rparr>]"

text \<open>Two visits of \<open>twitter.com\<close> and two of \<open>facebook.com\<close> shortly before \<open>monday1000\<close>.\<close>

definition fourVisits :: "accessLog list" where
  "fourVisits = [\<lparr>site = ''twitter.com'', timestamp = 1704103199000, tabId = 1\<rparr>,
                 \<lparr>site = ''twitter.com'', timestamp = 1704103198000, tabId = 2\<rparr>,
                 \<lparr>site = ''facebook.com'', timestamp = 1704103197000, tabId = 3\<rparr>,
                 \<lparr>site = ''facebook.com'', timestamp = 1704103196000, tabId = 4\<rparr>]"

text \<open>
  Visits of \<open>example.com\<close> exactly 60 minutes before \<open>monday1000\<close>, one millisecond
  earlier than that, and a recent visit of another site.
\<close>

definition boundaryVisits :: "accessLog list" where
  "boundaryVisits = [\<lparr>site = ''example.com'', timestamp = 1704099600000, tabId = 1\<rparr>,
                     \<lparr>site = ''example.com'', timestamp = 1704099599999, tabId = 2\<rparr>,
                     \<lparr>site = ''other.com'', timestamp = 1704103199000, tabId = 3\<rparr>]"

text \<open>
  A scheduled rule group with allowance 1 and a visit exactly 60 minutes before
  \<open>monday1700\<close>.
\<close>

definition workChat :: ruleGroup where
  "workChat = \<lparr>name = ''Work Chat'', duration = 60, maxAccesses = 1, strictMode = False,
                sites = [''slack.com''], schedule = Some weekdays\<rparr>"

definition workChatConfig :: "configuration option" where
  "workChatConfig = Some \<lparr>groups = Some [workChat]\<rparr>"

definition hourOldVisit :: "accessLog list" where
  "hourOldVisit = [\<lparr>site = ''slack.com'', timestamp = 1704124800000, tabId = 1\<rparr>]"

text \<open>
  A strict rule group with a path pattern and a plain one, and a visit of the path
  pattern's domain.
\<close>

definition chatAndFeed :: ruleGroup where
  "chatAndFeed = \<lparr>name = ''Chat and Feed'', duration = 60, maxAccesses = 1, strictMode = True,
                   sites = [''discord.com/channels'', ''twitter.com''], schedule = None\<rparr>"

definition discordVisit :: "accessLog list" where
  "discordVisit = [\<lparr>site = ''discord.com'', timestamp = 1704103199000, tabId = 1\<rparr>]"

definition chatAndFeedConfig :: "configuration option" where
  "chatAndFeedConfig = Some \<lparr>groups = Some [chatAndFeed]\<rparr>"

section \<open>Properties of the string primitives\<close>

lemma js_split_nonempty: "js_split c s \<noteq> []"
  by (induction s) (auto split: list.splits)

lemma js_split_unfold:
  "js_split c s = takeWhile (\<lambda>x. x \<noteq> c) s #
     (case dropWhile (\<lambda>x. x \<noteq> c) s of [] \<Rightarrow> [] | _ # r \<Rightarrow> js_split c r)"
  by (induction s) (auto split: list.splits)

lemma js_join_split: "js_join [c] (js_split c s) = s"
proof (induction s)
  case Nil
  show ?case by simp
next
  case (Cons x xs)
  obtain w ws where sp: "js_split c xs = w # ws"
    using js_split_nonempty [of c xs] by (cases "js_split c xs") auto
  show ?case
  proof (cases "x = c")
    case True
    with sp Cons show ?thesis by simp
  next
    case False
    from sp Cons have "js_join [c] (w # ws) = xs" by simp
    then have "js_join [c] ((x # w) # ws) = x # xs" by (cases ws) auto
    with False sp show ?thesis by simp
  qed
qed

lemma js_join_rest:
  "js_join [c] (case d of [] \<Rightarrow> [] | _ # r \<Rightarrow> js_split c r) = drop 1 d"
  by (cases d) (simp_all add: js_join_split)

lemma js_split_parts:
  "\<exists>rest. js_split CHR ''/'' pattern = spec_patternDomain pattern # rest
     \<and> js_join ''/'' rest = spec_patternPath pattern"
  unfolding spec_patternDomain_def spec_patternPath_def
  using js_split_unfold [of "CHR ''/''" pattern] js_join_rest [of "CHR ''/''"]
  by blast

lemma normalizedPath_eq:
  "(if prefix ''/'' p then drop 1 p else p) = spec_strippedPath p"
  by (cases p) (auto simp: spec_strippedPath_def)

lemma suffix_eval: "suffix xs ys \<longleftrightarrow> prefix (rev xs) (rev ys)"
  by (rule suffix_to_prefix)

section \<open>The site pattern matcher\<close>

text \<open>\<open>simpleURL\<close> on the URLs of \<open>tests/unit/url-matcher.test.js\<close>.\<close>

lemma simpleURL_examples:
  "extractDomain simpleURL ''https://discord.com/channels'' = ''discord.com''"
  "extractDomain simpleURL ''http://example.com'' = ''example.com''"
  "extractDomain simpleURL ''https://sub.domain.example.com'' = ''sub.domain.example.com''"
  "extractDomain simpleURL ''https://localhost:3000'' = ''localhost''"
  "extractDomain simpleURL ''https://example.com:8080/path'' = ''example.com''"
  "extractDomain simpleURL ''not a url'' = []"
  "extractDomain simpleURL ''just-text'' = []"
  "extractDomain simpleURL [] = []"
  "extractPath simpleURL ''https://discord.com/channels/123'' = ''/channels/123''"
  "extractPath simpleURL ''https://example.com'' = ''/''"
  "extractPath simpleURL ''https://example.com/'' = ''/''"
  "extractPath simpleURL ''https://example.com/search?q=test'' = ''/search''"
  "extractPath simpleURL ''https://example.com/page#section'' = ''/page''"
  "extractPath simpleURL ''not a url'' = []"
  by code_simp+

text \<open>
  C3.  For a destination URL that parses to a non-empty domain and for a non-empty
  pattern, \<open>matchesSitePattern\<close> is true exactly when the destination's domain
  equals the pattern's domain or ends with a dot followed by the pattern's domain, and,
  when the pattern carries a path, the destination's path without its leading slash
  equals the pattern's path or starts with the pattern's path followed by a slash.
  (Unparseable URLs and empty patterns are the subject of C8.)
\<close>

theorem matchesSitePattern_iff:
  assumes "extractDomain URL u \<noteq> []" and "pattern \<noteq> []"
  shows "matchesSitePattern URL u pattern \<longleftrightarrow>
           (extractDomain URL u = spec_patternDomain pattern
              \<or> suffix (''.'' @ spec_patternDomain pattern) (extractDomain URL u))
           \<and> (spec_patternPath pattern \<noteq> [] \<longrightarrow>
                 spec_strippedPath (extractPath URL u) = spec_patternPath pattern
                 \<or> prefix (spec_patternPath pattern @ ''/'') (spec_strippedPath (extractPath URL u)))"
proof -
  obtain rest where sp: "js_split CHR ''/'' pattern = spec_patternDomain pattern # rest"
    and jn: "js_join ''/'' rest = spec_patternPath pattern"
    using js_split_parts by blast
  show ?thesis
    using assms by (auto simp add: matchesSitePattern_def Let_def sp jn normalizedPath_eq)
qed

text \<open>
  The theorem at the specification's examples: \<open>chat.discord.com/channels/123\<close> matches
  \<open>discord.com/channels\<close>; \<open>mydiscordx.com\<close> does not match \<open>discord.com\<close>;
  \<open>/channelsettings\<close> does not match \<open>discord.com/channels\<close>.
\<close>

theorem matchesSitePattern_iff_witness:
  "extractDomain simpleURL ''https://chat.discord.com/channels/123'' \<noteq> []
   \<and> ''discord.com/channels'' \<noteq> []
   \<and> matchesSitePattern simpleURL ''https://chat.discord.com/channels/123'' ''discord.com/channels''
   \<and> extractDomain simpleURL ''https://mydiscordx.com'' \<noteq> []
   \<and> \<not> matchesSitePattern simpleURL ''https://mydiscordx.com'' ''discord.com''
   \<and> extractDomain simpleURL ''https://discord.com/channelsettings'' \<noteq> []
   \<and> \<not> matchesSitePattern simpleURL ''https://discord.com/channelsettings'' ''discord.com/channels''"
proof -
  have e1: "extractDomain simpleURL ''https://chat.discord.com/channels/123'' = ''chat.discord.com''"
    and p1: "extractPath simpleURL ''https://chat.discord.com/channels/123'' = ''/channels/123''"
    and e2: "extractDomain simpleURL ''https://mydiscordx.com'' = ''mydiscordx.com''"
    and e3: "extractDomain simpleURL ''https://discord.com/channelsettings'' = ''discord.com''"
    and p3: "extractPath simpleURL ''https://discord.com/channelsettings'' = ''/channelsettings''"
    by (simp_all add: extractDomain_def extractPath_def simpleURL_def Let_def)
  have n: "''discord.com/channels'' \<noteq> []" "''discord.com'' \<noteq> []" by simp_all
  have d1: "extractDomain simpleURL ''https://chat.discord.com/channels/123'' \<noteq> []"
    and d2: "extractDomain simpleURL ''https://mydiscordx.com'' \<noteq> []"
    and d3: "extractDomain simpleURL ''https://discord.com/channelsettings'' \<noteq> []"
    by (simp_all add: e1 e2 e3)
  show ?thesis
    using matchesSitePattern_iff [OF d1 n(1)] matchesSitePattern_iff [OF d2 n(2)]
      matchesSitePattern_iff [OF d3 n(1)]
    by (simp add: e1 p1 e2 e3 p3 spec_patternDomain_def spec_patternPath_def
          spec_strippedPath_def suffix_eval)
qed

text \<open>
  C8.  When the destination URL does not parse, \<open>extractDomain\<close> and \<open>extractPath\<close>
  return the empty string and \<open>matchesSitePattern\<close> returns false; an empty pattern
  gives false as well.  None of the three functions can throw: the parser's exception
  is caught, and the model has no error result for them.  The empty URL is one that the
  host parser rejects.
\<close>

theorem matches_malformed:
  "(URL u = None \<longrightarrow>
      extractDomain URL u = [] \<and> extractPath URL u = [] \<and> \<not> matchesSitePattern URL u pattern)
   \<and> (pattern = [] \<longrightarrow> \<not> matchesSitePattern URL u pattern)"
  by (simp add: extractDomain_def extractPath_def matchesSitePattern_def)

theorem matches_malformed_witness:
  "simpleURL ''not a url'' = None
   \<and> extractDomain simpleURL ''not a url'' = []
   \<and> extractPath simpleURL ''not a url'' = []
   \<and> \<not> matchesSitePattern simpleURL ''not a url'' ''discord.com''
   \<and> simpleURL [] = None
   \<and> \<not> matchesSitePattern simpleURL [] ''discord.com''
   \<and> \<not> matchesSitePattern simpleURL ''https://discord.com'' []"
proof -
  have h1: "simpleURL ''not a url'' = None" and h2: "simpleURL [] = None"
    by (simp_all add: simpleURL_def)
  from h1 h2 matches_malformed [of simpleURL "''not a url''" "''discord.com''"]
    matches_malformed [of simpleURL "[]" "''discord.com''"]
    matches_malformed [of simpleURL "''https://discord.com''" "[]"]
  show ?thesis by blast
qed

section \<open>The access window\<close>

text \<open>
  C2.  Without strict mode, the remaining count is \<open>max 0\<close> of the allowance minus the
  number of records whose site is the target site and whose timestamp is at least the
  clock's reading minus \<open>durationMinutes * 60000\<close> (so a record exactly on the boundary
  is counted); it is never negative, and it is at most the allowance when the allowance
  is not negative.
\<close>

theorem remaining_nonstrict:
  "fst (calculateRemainingAccesses clk logs maxA dur False sts target k) =
     max 0 (maxA - int (length (filter (\<lambda>a. site a = target
                                  \<and> timestamp a \<ge> getTime (clk k) - dur * 60000) logs)))
   \<and> 0 \<le> fst (calculateRemainingAccesses clk logs maxA dur False sts target k)
   \<and> (0 \<le> maxA \<longrightarrow> fst (calculateRemainingAccesses clk logs maxA dur False sts target k) \<le> maxA)"
proof -
  have "filter (\<lambda>a. site a = target)
          (filter (\<lambda>a. getTime (clk k) - dur * 60 * 1000 \<le> timestamp a) logs)
        = filter (\<lambda>a. site a = target \<and> timestamp a \<ge> getTime (clk k) - dur * 60000) logs"
    by (simp add: conj_commute mult.commute)
  then have eq: "fst (calculateRemainingAccesses clk logs maxA dur False sts target k) =
     max 0 (maxA - int (length (filter (\<lambda>a. site a = target
                                  \<and> timestamp a \<ge> getTime (clk k) - dur * 60000) logs)))"
    by (simp add: calculateRemainingAccesses_def filterAccessesInWindow_def Let_def)
  show ?thesis unfolding eq by simp
qed

text \<open>
  With allowance 3 and a window of 60 minutes, the record that is exactly 60 minutes old
  is counted, the one a millisecond older and the one of another site are not: 2 remain.
\<close>

theorem remaining_nonstrict_witness:
  "(0::int) \<le> 3
   \<and> fst (calculateRemainingAccesses (frozen monday1000) boundaryVisits 3 60 False
            [''example.com''] ''example.com'' 0) = 2"
  using remaining_nonstrict [of "frozen monday1000" boundaryVisits 3 60 "[''example.com'']"
          "''example.com''" 0]
  by (simp add: boundaryVisits_def monday1000_def frozen_def)

lemma strictSiteMatches_spec: "strictSiteMatches s pattern = spec_domainMatches s pattern"
proof -
  obtain rest where "js_split CHR ''/'' pattern = spec_patternDomain pattern # rest"
    using js_split_parts by blast
  then show ?thesis
    by (simp add: strictSiteMatches_def spec_domainMatches_def Let_def)
qed

text \<open>
  C4.  In strict mode the records counted are those of the window whose site is the
  domain, or a subdomain of the domain, of at least one pattern of the group; the path
  of a pattern plays no part, and neither does the target site.
\<close>

theorem remaining_strict:
  "fst (calculateRemainingAccesses clk logs maxA dur True sts target k) =
     max 0 (maxA - int (length (filter (\<lambda>a. timestamp a \<ge> getTime (clk k) - dur * 60000
                                  \<and> (\<exists>p\<in>set sts. spec_domainMatches (site a) p)) logs)))"
  by (simp add: calculateRemainingAccesses_def filterAccessesInWindow_def Let_def
        strictSiteMatches_spec list_ex_iff mult.commute)

text \<open>
  Allowance 5, two records on \<open>twitter.com\<close> and two on \<open>facebook.com\<close>: one access
  remains for \<open>instagram.com\<close>.
\<close>

theorem remaining_strict_witness:
  "fst (calculateRemainingAccesses (frozen monday1000) fourVisits 5 120 True
          [''twitter.com'', ''facebook.com'', ''instagram.com''] ''instagram.com'' 0) = 1"
  using remaining_strict [of "frozen monday1000" fourVisits 5 120
          "[''twitter.com'', ''facebook.com'', ''instagram.com'']" "''instagram.com''" 0]
  by (simp add: fourVisits_def monday1000_def spec_domainMatches_def spec_patternDomain_def
        suffix_eval frozen_def)

section \<open>The schedule evaluator\<close>

lemma isDigit_facts:
  assumes "isDigit c"
  shows "c \<noteq> CHR ''-''" "c \<noteq> CHR ''+''" "\<not> isWhiteSpace c"
  using assms by (auto simp: isDigit_def isWhiteSpace_def)

lemma parseInt_two_digits:
  assumes "isDigit a" "isDigit b"
  shows "parseInt [a, b] = Some (int (10 * digitVal a + digitVal b))"
  using assms isDigit_facts [OF assms(1)]
  by (simp add: parseInt_def digitsVal_def)

lemma length_nine:
  assumes "length (t :: 'a list) = 9"
  obtains a b c d x e f g h where "t = [a, b, c, d, x, e, f, g, h]"
proof -
  from assms obtain a t1 where 1: "t = a # t1" "length t1 = 8" by (cases t) auto
  then obtain b t2 where 2: "t1 = b # t2" "length t2 = 7" by (cases t1) auto
  then obtain c t3 where 3: "t2 = c # t3" "length t3 = 6" by (cases t2) auto
  then obtain d t4 where 4: "t3 = d # t4" "length t4 = 5" by (cases t3) auto
  then obtain x t5 where 5: "t4 = x # t5" "length t5 = 4" by (cases t4) auto
  then obtain e t6 where 6: "t5 = e # t6" "length t6 = 3" by (cases t5) auto
  then obtain f t7 where 7: "t6 = f # t7" "length t7 = 2" by (cases t6) auto
  then obtain g t8 where 8: "t7 = g # t8" "length t8 = 1" by (cases t7) auto
  then obtain h where 9: "t8 = [h]" by (cases t8) auto
  show thesis using that 1 2 3 4 5 6 7 8 9 by simp
qed

lemma validTimeLiteral_shape:
  assumes "validTimeLiteral t"
  shows "t = [t ! 0, t ! 1, t ! 2, t ! 3, CHR ''-'', t ! 5, t ! 6, t ! 7, t ! 8]"
    and "isDigit (t ! 0)" "isDigit (t ! 1)" "isDigit (t ! 2)" "isDigit (t ! 3)"
    and "isDigit (t ! 5)" "isDigit (t ! 6)" "isDigit (t ! 7)" "isDigit (t ! 8)"
proof -
  from assms have "length t = 9" by (simp add: validTimeLiteral_def)
  then obtain a b c d x e f g h where t: "t = [a, b, c, d, x, e, f, g, h]"
    by (rule length_nine)
  from assms show "t = [t ! 0, t ! 1, t ! 2, t ! 3, CHR ''-'', t ! 5, t ! 6, t ! 7, t ! 8]"
    and "isDigit (t ! 0)" "isDigit (t ! 1)" "isDigit (t ! 2)" "isDigit (t ! 3)"
    and "isDigit (t ! 5)" "isDigit (t ! 6)" "isDigit (t ! 7)" "isDigit (t ! 8)"
    by (simp_all add: validTimeLiteral_def t)
qed

lemma js_split_digit:
  "isDigit x \<Longrightarrow> js_split CHR ''-'' xs = w # ws \<Longrightarrow>
     js_split CHR ''-'' (x # xs) = (x # w) # ws"
  by (simp add: isDigit_facts)

lemma js_split_literal:
  assumes "isDigit a" "isDigit b" "isDigit c" "isDigit d"
    "isDigit e" "isDigit f" "isDigit g" "isDigit h"
  shows "js_split CHR ''-'' [a, b, c, d, CHR ''-'', e, f, g, h] = [[a, b, c, d], [e, f, g, h]]"
proof -
  have "js_split CHR ''-'' [] = [[]]" by simp
  then have "js_split CHR ''-'' [h] = [[h]]" by (rule js_split_digit [OF assms(8)])
  then have "js_split CHR ''-'' [g, h] = [[g, h]]" by (rule js_split_digit [OF assms(7)])
  then have "js_split CHR ''-'' [f, g, h] = [[f, g, h]]" by (rule js_split_digit [OF assms(6)])
  then have "js_split CHR ''-'' [e, f, g, h] = [[e, f, g, h]]"
    by (rule js_split_digit [OF assms(5)])
  then have "js_split CHR ''-'' [CHR ''-'', e, f, g, h] = [[], [e, f, g, h]]" by simp
  then have "js_split CHR ''-'' [d, CHR ''-'', e, f, g, h] = [[d], [e, f, g, h]]"
    by (rule js_split_digit [OF assms(4)])
  then have "js_split CHR ''-'' [c, d, CHR ''-'', e, f, g, h] = [[c, d], [e, f, g, h]]"
    by (rule js_split_digit [OF assms(3)])
  then have "js_split CHR ''-'' [b, c, d, CHR ''-'', e, f, g, h] = [[b, c, d], [e, f, g, h]]"
    by (rule js_split_digit [OF assms(2)])
  then show ?thesis by (rule js_split_digit [OF assms(1)])
qed

lemma parseTimeRange_literal:
  assumes "isDigit a" "isDigit b" "isDigit c" "isDigit d"
    "isDigit e" "isDigit f" "isDigit g" "isDigit h"
  shows "parseTimeRange [a, b, c, d, CHR ''-'', e, f, g, h] =
     Inr (\<lparr>hours = Some (int (10 * digitVal a + digitVal b)),
            minutes = Some (int (10 * digitVal c + digitVal d))\<rparr>,
          \<lparr>hours = Some (int (10 * digitVal e + digitVal f)),
            minutes = Some (int (10 * digitVal g + digitVal h))\<rparr>)"
  unfolding parseTimeRange_def js_split_literal [OF assms]
  by (simp add: js_slice_def parseInt_two_digits assms)

text \<open>A well-formed literal parses, without a throw and without \<open>NaN\<close>, to its range.\<close>

lemma parseTimeRange_valid:
  assumes "validTimeLiteral t"
  shows "\<exists>s e. parseTimeRange t = Inr (s, e)
           \<and> toMinutes s = Some (spec_rangeStart t) \<and> toMinutes e = Some (spec_rangeEnd t)"
proof -
  note sh = validTimeLiteral_shape [OF assms]
  have p: "parseTimeRange t =
     Inr (\<lparr>hours = Some (int (10 * digitVal (t ! 0) + digitVal (t ! 1))),
            minutes = Some (int (10 * digitVal (t ! 2) + digitVal (t ! 3)))\<rparr>,
          \<lparr>hours = Some (int (10 * digitVal (t ! 5) + digitVal (t ! 6))),
            minutes = Some (int (10 * digitVal (t ! 7) + digitVal (t ! 8)))\<rparr>)"
    using parseTimeRange_literal [OF sh(2-9)] sh(1) by simp
  have "length t = 9" using assms by (simp add: validTimeLiteral_def)
  then have s: "spec_rangeStart t =
      int (10 * digitVal (t ! 0) + digitVal (t ! 1)) * 60
        + int (10 * digitVal (t ! 2) + digitVal (t ! 3))"
    and e: "spec_rangeEnd t =
      int (10 * digitVal (t ! 5) + digitVal (t ! 6)) * 60
        + int (10 * digitVal (t ! 7) + digitVal (t ! 8))"
    by (simp_all add: spec_rangeStart_def spec_rangeEnd_def spec_minuteOfDay_def)
  show ?thesis unfolding p s e by (simp add: toMinutes_def)
qed

lemma isTimeInRange_valid:
  assumes "validTimeLiteral t"
  shows "\<exists>s e. parseTimeRange t = Inr (s, e) \<and> isTimeInRange now s e = spec_inRange now t"
proof -
  from parseTimeRange_valid [OF assms] obtain s e where
    "parseTimeRange t = Inr (s, e)" "toMinutes s = Some (spec_rangeStart t)"
    "toMinutes e = Some (spec_rangeEnd t)" by blast
  then show ?thesis by (auto simp: isTimeInRange_def spec_inRange_def Let_def)
qed

lemma anyTimeRange_valid:
  "\<forall>t\<in>set ts. validTimeLiteral t \<Longrightarrow>
     anyTimeRange now ts = Inr (\<exists>t\<in>set ts. spec_inRange now t)"
proof (induction ts)
  case Nil
  show ?case by simp
next
  case (Cons t ts)
  then have v: "validTimeLiteral t" by simp
  from isTimeInRange_valid [OF v, of now] obtain s e where
    "parseTimeRange t = Inr (s, e)" "isTimeInRange now s e = spec_inRange now t" by blast
  with Cons show ?case by simp
qed

text \<open>
  C5.  A schedule that is absent, or that lacks its days or its times, is active
  whatever the clock reads.  A schedule with both, whose time ranges are well formed, is
  active exactly when the weekday of the clock's reading is one of its days and the
  reading's minute of the day lies in one of its ranges, the first and the last minute
  of a range included.
\<close>

theorem isRuleActiveNow_spec:
  "((sched = None \<or> (\<exists>s. sched = Some s \<and> (days s = None \<or> times_sched s = None)))
      \<longrightarrow> fst (isRuleActiveNow clk sched k) = Inr True)
   \<and> (sched = Some s \<and> days s = Some ds \<and> times_sched s = Some ts
        \<and> (\<forall>t\<in>set ts. validTimeLiteral t)
      \<longrightarrow> fst (isRuleActiveNow clk sched k) =
            Inr (getDay (clk k) \<in> set ds \<and> (\<exists>t\<in>set ts. spec_inRange (clk k) t)))"
  by (auto simp: isRuleActiveNow_def Let_def anyTimeRange_valid split: option.splits)

text \<open>
  The weekday schedule 09:00 to 17:00: inactive on Monday at 08:00, active on Monday at
  10:00 and at 17:00 (the last minute of the range), inactive on Sunday at 10:00; no
  schedule and a schedule without fields are active.
\<close>

theorem isRuleActiveNow_spec_witness:
  "validTimeLiteral ''0900-1700''
   \<and> fst (isRuleActiveNow (frozen monday0800) (Some weekdays) 0) = Inr False
   \<and> fst (isRuleActiveNow (frozen monday1000) (Some weekdays) 0) = Inr True
   \<and> fst (isRuleActiveNow (frozen monday1700) (Some weekdays) 0) = Inr True
   \<and> fst (isRuleActiveNow (frozen sunday1000) (Some weekdays) 0) = Inr False
   \<and> fst (isRuleActiveNow (frozen sunday1000) None 0) = Inr True
   \<and> fst (isRuleActiveNow (frozen sunday1000)
            (Some \<lparr>days = None, times_sched = None\<rparr>) 0) = Inr True"
proof -
  have v: "validTimeLiteral ''0900-1700''"
    by (simp add: validTimeLiteral_def isDigit_def)
  have w: "days weekdays = Some [1, 2, 3, 4, 5]" "times_sched weekdays = Some [''0900-1700'']"
    by (simp_all add: weekdays_def)
  have r: "spec_rangeStart ''0900-1700'' = 540" "spec_rangeEnd ''0900-1700'' = 1020"
    by (simp_all add: spec_rangeStart_def spec_rangeEnd_def spec_minuteOfDay_def digitVal_def)
  note a = isRuleActiveNow_spec [of "Some weekdays" _ 0 weekdays "[1, 2, 3, 4, 5]"
              "[''0900-1700'']"]
  from v w a [of "frozen monday0800"] a [of "frozen monday1000"] a [of "frozen monday1700"]
    a [of "frozen sunday1000"]
    isRuleActiveNow_spec [of None "frozen sunday1000" 0]
    isRuleActiveNow_spec [of "Some \<lparr>days = None, times_sched = None\<rparr>" "frozen sunday1000" 0]
  show ?thesis
    by (simp add: r spec_inRange_def monday0800_def monday1000_def monday1700_def
          sunday1000_def frozen_def)
qed

section \<open>The engine at one instant\<close>

lemma isRuleActiveNow_frozen:
  "fst (isRuleActiveNow (frozen now) sched k) = activeAt now sched"
  by (simp add: isRuleActiveNow_def activeAt_def frozen_def Let_def split: option.splits)

lemma calculateRemainingAccesses_frozen:
  "fst (calculateRemainingAccesses (frozen now) logs (maxAccesses r) (duration r)
          (strictMode r) (sites r) s k) = remainingAt now logs s r"
  by (simp add: calculateRemainingAccesses_def filterAccessesInWindow_def remainingAt_def
        frozen_def Let_def)

lemma remainingAt_nonneg: "0 \<le> remainingAt now logs s r"
  by (simp add: calculateRemainingAccesses_def filterAccessesInWindow_def remainingAt_def
        frozen_def Let_def)

text \<open>The active rules are the applicable groups of the configuration, in its order.\<close>

lemma filterActive_frozen:
  "fst (filterActive URL (frozen now) s gs k) = Inr rs \<Longrightarrow>
     rs = filter (appliesTo URL now s) gs"
proof (induction gs arbitrary: k rs)
  case Nil
  then show ?case by simp
next
  case (Cons g gs)
  obtain a k1 where a: "isRuleActiveNow (frozen now) (schedule g) k = (a, k1)"
    by (cases "isRuleActiveNow (frozen now) (schedule g) k")
  then have act: "activeAt now (schedule g) = a"
    using isRuleActiveNow_frozen [of now "schedule g" k] by simp
  obtain b k2 where b: "filterActive URL (frozen now) s gs k1 = (b, k2)"
    by (cases "filterActive URL (frozen now) s gs k1")
  from Cons.prems a b obtain active kept where ak: "a = Inr active" "b = Inr kept"
    by (cases a; cases b) auto
  from Cons.IH [of k1 kept] b ak have kept: "kept = filter (appliesTo URL now s) gs" by simp
  have ap: "appliesTo URL now s g \<longleftrightarrow>
      active \<and> list_ex (\<lambda>pattern. matchesSitePattern URL (''https://'' @ s) pattern) (sites g)"
    using act ak by (auto simp: appliesTo_def list_ex_iff)
  from Cons.prems a b ak kept show ?case
    by (auto simp add: ap Let_def split: if_splits)
qed

lemma getActiveRulesForSite_frozen:
  "fst (getActiveRulesForSite URL (frozen now) s config k) = Inr rs \<Longrightarrow>
     rs = filter (appliesTo URL now s) (configGroups config)"
  by (auto simp: getActiveRulesForSite_def configGroups_def split: option.splits
        dest: filterActive_frozen)

lemma firstExhausted_frozen:
  "fst (firstExhausted (frozen now) logs s rules k) =
     (case find (\<lambda>r. remainingAt now logs s r = 0) rules of
        None \<Rightarrow> NoBlock | Some r \<Rightarrow> blockedBy r)"
proof (induction rules arbitrary: k)
  case Nil
  show ?case by simp
next
  case (Cons r rules)
  obtain m k1 where c: "calculateRemainingAccesses (frozen now) logs (maxAccesses r)
          (duration r) (strictMode r) (sites r) s k = (m, k1)"
    by (cases "calculateRemainingAccesses (frozen now) logs (maxAccesses r) (duration r)
          (strictMode r) (sites r) s k")
  then have m: "m = remainingAt now logs s r"
    using calculateRemainingAccesses_frozen [of now logs r s k] by simp
  have "m \<le> 0 \<longleftrightarrow> m = 0" using remainingAt_nonneg [of now logs s r] m by auto
  with c m Cons.IH [of k1] show ?case by (simp add: blockedBy_def)
qed

lemma shouldBlockAccess_frozen:
  assumes "fst (getActiveRulesForSite URL (frozen now) s config k) = Inr activeRules"
  shows "fst (shouldBlockAccess URL (frozen now) s config logs k) =
     Inr (case find (\<lambda>r. remainingAt now logs s r = 0) activeRules of
            None \<Rightarrow> NoBlock | Some r \<Rightarrow> blockedBy r)"
proof -
  obtain k1 where g: "getActiveRulesForSite URL (frozen now) s config k = (Inr activeRules, k1)"
    using assms by (cases "getActiveRulesForSite URL (frozen now) s config k") auto
  obtain d k2 where f: "firstExhausted (frozen now) logs s activeRules k1 = (d, k2)"
    by (cases "firstExhausted (frozen now) logs s activeRules k1")
  then have "d = (case find (\<lambda>r. remainingAt now logs s r = 0) activeRules of
            None \<Rightarrow> NoBlock | Some r \<Rightarrow> blockedBy r)"
    using firstExhausted_frozen [of now logs s activeRules k1] by simp
  with g f show ?thesis
    by (cases activeRules) (simp_all add: shouldBlockAccess_def)
qed

lemma find_blocked_iff:
  "(case find P rules of None \<Rightarrow> NoBlock | Some r \<Rightarrow> blockedBy r) \<noteq> NoBlock
     \<longleftrightarrow> (\<exists>r\<in>set rules. P r)"
  by (auto simp: blockedBy_def find_None_iff find_Some_iff split: option.splits)

lemma lowestLoop_frozen:
  "fst (lowestLoop (frozen now) logs s rules acc k) =
     foldl js_min acc (map (remainingAt now logs s) rules)"
proof (induction rules arbitrary: acc k)
  case Nil
  show ?case by simp
next
  case (Cons r rules)
  obtain m k1 where c: "calculateRemainingAccesses (frozen now) logs (maxAccesses r)
          (duration r) (strictMode r) (sites r) s k = (m, k1)"
    by (cases "calculateRemainingAccesses (frozen now) logs (maxAccesses r) (duration r)
          (strictMode r) (sites r) s k")
  then have m: "m = remainingAt now logs s r"
    using calculateRemainingAccesses_frozen [of now logs r s k] by simp
  with c Cons.IH [of "js_min acc m" k1] show ?case by simp
qed

lemma foldl_js_min_Num: "foldl js_min (Num a) xs = Num (Min (insert a (set xs)))"
proof (induction xs arbitrary: a)
  case Nil
  show ?case by simp
next
  case (Cons x xs)
  have "Min (insert (min a x) (set xs)) = Min (insert a (insert x (set xs)))"
    by (cases "set xs = {}") (simp_all add: min.assoc)
  with Cons show ?case by simp
qed

lemma foldl_js_min_Infinity:
  "xs \<noteq> [] \<Longrightarrow> foldl js_min Infinity xs = Num (Min (set xs))"
  by (cases xs) (simp_all add: foldl_js_min_Num)

lemma getMostRestrictiveCount_frozen:
  assumes "fst (getActiveRulesForSite URL (frozen now) s config k) = Inr activeRules"
  shows "fst (getMostRestrictiveCount URL (frozen now) s config logs k) =
     Inr (if activeRules = [] then None
          else Some (Min (remainingAt now logs s ` set activeRules)))"
proof -
  obtain k1 where g: "getActiveRulesForSite URL (frozen now) s config k = (Inr activeRules, k1)"
    using assms by (cases "getActiveRulesForSite URL (frozen now) s config k") auto
  obtain l k2 where f: "lowestLoop (frozen now) logs s activeRules Infinity k1 = (l, k2)"
    by (cases "lowestLoop (frozen now) logs s activeRules Infinity k1")
  then have l: "l = foldl js_min Infinity (map (remainingAt now logs s) activeRules)"
    using lowestLoop_frozen [of now logs s activeRules Infinity k1] by simp
  show ?thesis
  proof (cases "activeRules = []")
    case True
    with g show ?thesis by (simp add: getMostRestrictiveCount_def)
  next
    case False
    then have "l = Num (Min (remainingAt now logs s ` set activeRules))"
      using l foldl_js_min_Infinity [of "map (remainingAt now logs s) activeRules"] by simp
    with g f False show ?thesis by (simp add: getMostRestrictiveCount_def)
  qed
qed

lemma Min_remaining_zero_iff:
  assumes "activeRules \<noteq> []"
  shows "Min (remainingAt now logs s ` set activeRules) = 0
           \<longleftrightarrow> (\<exists>r\<in>set activeRules. remainingAt now logs s r = 0)"
proof -
  let ?S = "remainingAt now logs s ` set activeRules"
  have fin: "finite ?S" and ne: "?S \<noteq> {}" using assms by simp_all
  show ?thesis
  proof
    assume "Min ?S = 0"
    with Min_in [OF fin ne] show "\<exists>r\<in>set activeRules. remainingAt now logs s r = 0" by auto
  next
    assume "\<exists>r\<in>set activeRules. remainingAt now logs s r = 0"
    then have "0 \<in> ?S" by force
    then have "Min ?S \<le> 0" using fin by (rule_tac Min_le)
    moreover have "0 \<le> Min ?S" using fin ne by (simp add: remainingAt_nonneg)
    ultimately show "Min ?S = 0" by simp
  qed
qed

text \<open>
  A configuration whose time ranges are all well formed never makes the schedule check
  throw, so that the engine returns a result on every clock.
\<close>

lemma isRuleActiveNow_total:
  "validSchedule sched \<Longrightarrow> \<exists>b k'. isRuleActiveNow clk sched k = (Inr b, k')"
  by (auto simp: isRuleActiveNow_def validSchedule_def Let_def list_all_iff anyTimeRange_valid
        split: option.splits)

lemma filterActive_total:
  "\<forall>g\<in>set gs. validSchedule (schedule g) \<Longrightarrow>
     \<exists>rs k'. filterActive URL clk s gs k = (Inr rs, k')"
proof (induction gs arbitrary: k)
  case Nil
  show ?case by simp
next
  case (Cons g gs)
  then obtain b k1 where a: "isRuleActiveNow clk (schedule g) k = (Inr b, k1)"
    using isRuleActiveNow_total [of "schedule g" clk k] by auto
  from Cons obtain rs k2 where "filterActive URL clk s gs k1 = (Inr rs, k2)" by force
  with a show ?case by simp
qed

lemma getActiveRulesForSite_total:
  "\<forall>g\<in>set (configGroups config). validSchedule (schedule g) \<Longrightarrow>
     \<exists>rs k'. getActiveRulesForSite URL clk s config k = (Inr rs, k')"
  by (auto simp: getActiveRulesForSite_def configGroups_def filterActive_total
        split: option.splits)

section \<open>Decision and badge count\<close>

text \<open>
  C1.  At an instant at which the active rules of a site are found (no malformed time
  range is met), \<open>shouldBlockAccess\<close> blocks if and only if some active rule has no
  access remaining; the rule it then names, with its duration and allowance, is the
  first such rule of the active rules, which are the applicable rule groups in the
  order of the configuration.
\<close>

theorem shouldBlockAccess_first_exhausted:
  assumes "fst (getActiveRulesForSite URL (frozen now) s config k) = Inr activeRules"
  shows "fst (shouldBlockAccess URL (frozen now) s config logs k) =
           Inr (case find (\<lambda>r. remainingAt now logs s r = 0) activeRules of
                  None \<Rightarrow> NoBlock | Some r \<Rightarrow> blockedBy r)
         \<and> (fst (shouldBlockAccess URL (frozen now) s config logs k) \<noteq> Inr NoBlock
              \<longleftrightarrow> (\<exists>r\<in>set activeRules. remainingAt now logs s r = 0))
         \<and> activeRules = filter (appliesTo URL now s) (configGroups config)"
  using shouldBlockAccess_frozen [OF assms, of logs] getActiveRulesForSite_frozen [OF assms]
    find_blocked_iff [of "\<lambda>r. remainingAt now logs s r = 0" activeRules]
  by simp

text \<open>
  Three groups cover \<open>example.com\<close>, with allowances 10, 2 and 1, in this order; after two
  visits the second and the third are exhausted, and the decision names the second.
\<close>

theorem shouldBlockAccess_first_exhausted_witness:
  "fst (getActiveRulesForSite simpleURL (frozen monday1000) ''example.com'' threeGroups 0)
     = Inr [groupB, groupA, groupC]
   \<and> fst (shouldBlockAccess simpleURL (frozen monday1000) ''example.com'' threeGroups
            twoVisits 0)
     = Inr (Block (''Access limit reached for rule '' @ [CHR 0x22] @ ''Group A'' @ [CHR 0x22])
              ''Group A'' 60 2)"
proof -
  have h: "fst (getActiveRulesForSite simpleURL (frozen monday1000) ''example.com''
             threeGroups 0) = Inr [groupB, groupA, groupC]"
    by code_simp
  have r: "remainingAt monday1000 twoVisits ''example.com'' groupB = 8"
    "remainingAt monday1000 twoVisits ''example.com'' groupA = 0"
    by code_simp+
  have a: "name groupA = ''Group A''" "duration groupA = 60" "maxAccesses groupA = 2"
    by (simp_all add: groupA_def)
  from shouldBlockAccess_first_exhausted [OF h, of twoVisits] h show ?thesis
    by (simp add: r a blockedBy_def)
qed

text \<open>
  C6.  At an instant at which the active rules of a site are found,
  \<open>getMostRestrictiveCount\<close> returns \<open>null\<close> exactly when there is no active rule, and
  otherwise the least of the remaining counts of the active rules, which is therefore at
  most the remaining count of each of them.
\<close>

theorem getMostRestrictiveCount_min:
  assumes "fst (getActiveRulesForSite URL (frozen now) s config k) = Inr activeRules"
  shows "fst (getMostRestrictiveCount URL (frozen now) s config logs k) =
           Inr (if activeRules = [] then None
                else Some (Min (remainingAt now logs s ` set activeRules)))
         \<and> (fst (getMostRestrictiveCount URL (frozen now) s config logs k) = Inr None
              \<longleftrightarrow> activeRules = [])
         \<and> (\<forall>r\<in>set activeRules. \<exists>m.
               fst (getMostRestrictiveCount URL (frozen now) s config logs k) = Inr (Some m)
               \<and> m \<le> remainingAt now logs s r)"
proof -
  note eq = getMostRestrictiveCount_frozen [OF assms, of logs]
  have "\<forall>r\<in>set activeRules.
          Min (remainingAt now logs s ` set activeRules) \<le> remainingAt now logs s r"
    by simp
  then show ?thesis unfolding eq by auto
qed

text \<open>
  With the three groups and no visit the count is 1, the least of 10, 2 and 1; for a site
  that no group covers it is \<open>null\<close>.
\<close>

theorem getMostRestrictiveCount_min_witness:
  "fst (getActiveRulesForSite simpleURL (frozen monday1000) ''example.com'' threeGroups 0)
     = Inr [groupB, groupA, groupC]
   \<and> fst (getMostRestrictiveCount simpleURL (frozen monday1000) ''example.com'' threeGroups
            [] 0) = Inr (Some 1)
   \<and> fst (getActiveRulesForSite simpleURL (frozen monday1000) ''nomatch.com'' threeGroups 0)
     = Inr []
   \<and> fst (getMostRestrictiveCount simpleURL (frozen monday1000) ''nomatch.com'' threeGroups
            [] 0) = Inr None"
proof -
  have h: "fst (getActiveRulesForSite simpleURL (frozen monday1000) ''example.com''
             threeGroups 0) = Inr [groupB, groupA, groupC]"
    by code_simp
  have h': "fst (getActiveRulesForSite simpleURL (frozen monday1000) ''nomatch.com''
             threeGroups 0) = Inr []"
    by code_simp
  have r: "remainingAt monday1000 [] ''example.com'' groupB = 10"
    "remainingAt monday1000 [] ''example.com'' groupA = 2"
    "remainingAt monday1000 [] ''example.com'' groupC = 1"
    by code_simp+
  from getMostRestrictiveCount_min [OF h, of "[]"] getMostRestrictiveCount_min [OF h', of "[]"]
    h h' show ?thesis
    by (simp add: r)
qed

text \<open>
  C10.  At an instant at which the active rules of a site are found and there is at
  least one, \<open>shouldBlockAccess\<close> blocks if and only if \<open>getMostRestrictiveCount\<close>
  returns 0.
\<close>

theorem block_iff_count_zero:
  assumes "fst (getActiveRulesForSite URL (frozen now) s config k) = Inr activeRules"
    and "activeRules \<noteq> []"
  shows "fst (shouldBlockAccess URL (frozen now) s config logs k) \<noteq> Inr NoBlock
           \<longleftrightarrow> fst (getMostRestrictiveCount URL (frozen now) s config logs k) = Inr (Some 0)"
  using shouldBlockAccess_frozen [OF assms(1), of logs]
    getMostRestrictiveCount_frozen [OF assms(1), of logs]
    find_blocked_iff [of "\<lambda>r. remainingAt now logs s r = 0" activeRules]
    Min_remaining_zero_iff [OF assms(2), of now logs s] assms(2)
  by simp

text \<open>
  After two visits the decision names the second group (allowance 2) and the count is 0,
  which is also the remaining count of the third group (allowance 1).
\<close>

theorem block_iff_count_zero_witness:
  "fst (getActiveRulesForSite simpleURL (frozen monday1000) ''example.com'' threeGroups 0)
     = Inr [groupB, groupA, groupC]
   \<and> [groupB, groupA, groupC] \<noteq> []
   \<and> fst (shouldBlockAccess simpleURL (frozen monday1000) ''example.com'' threeGroups
            twoVisits 0) \<noteq> Inr NoBlock
   \<and> fst (getMostRestrictiveCount simpleURL (frozen monday1000) ''example.com'' threeGroups
            twoVisits 0) = Inr (Some 0)"
proof -
  have h: "fst (getActiveRulesForSite simpleURL (frozen monday1000) ''example.com''
             threeGroups 0) = Inr [groupB, groupA, groupC]"
    by code_simp
  have n: "[groupB, groupA, groupC] \<noteq> []" by simp
  have c: "fst (getMostRestrictiveCount simpleURL (frozen monday1000) ''example.com''
             threeGroups twoVisits 0) = Inr (Some 0)"
    by code_simp
  from block_iff_count_zero [OF h n, of twoVisits] h c show ?thesis by simp
qed

section \<open>The engine and the clock\<close>

lemma sameReadings_iff:
  "sameReadings k k' clk clk' \<longleftrightarrow> (\<forall>i. k \<le> i \<and> i < k' \<longrightarrow> clk i = clk' i)"
  by (auto simp: sameReadings_def list_all_iff)

lemma isRuleActiveNow_reads:
  "snd (isRuleActiveNow clk sched k) = k \<or> snd (isRuleActiveNow clk sched k) = Suc k"
  by (simp add: isRuleActiveNow_def Let_def split: option.splits)

lemma isRuleActiveNow_cong:
  "(snd (isRuleActiveNow clk sched k) = Suc k \<longrightarrow> clk k = clk' k) \<Longrightarrow>
     isRuleActiveNow clk' sched k = isRuleActiveNow clk sched k"
  by (simp add: isRuleActiveNow_def Let_def split: option.splits)

lemma calculateRemainingAccesses_reads:
  "snd (calculateRemainingAccesses clk logs m d st sts s k) = Suc k"
  by (simp add: calculateRemainingAccesses_def filterAccessesInWindow_def Let_def)

lemma calculateRemainingAccesses_cong:
  "clk k = clk' k \<Longrightarrow>
     calculateRemainingAccesses clk' logs m d st sts s k =
     calculateRemainingAccesses clk logs m d st sts s k"
  by (simp add: calculateRemainingAccesses_def filterAccessesInWindow_def Let_def)

lemma filterActive_mono: "k \<le> snd (filterActive URL clk s gs k)"
proof (induction gs arbitrary: k)
  case Nil
  show ?case by simp
next
  case (Cons g gs)
  obtain a k1 where a: "isRuleActiveNow clk (schedule g) k = (a, k1)"
    by (cases "isRuleActiveNow clk (schedule g) k")
  then have k1: "k \<le> k1" using isRuleActiveNow_reads [of clk "schedule g" k] by auto
  obtain b k2 where b: "filterActive URL clk s gs k1 = (b, k2)"
    by (cases "filterActive URL clk s gs k1")
  then have "k1 \<le> k2" using Cons [of k1] by simp
  with k1 a b show ?case by (cases a; cases b) (simp_all add: Let_def)
qed

lemma filterActive_cong:
  "sameReadings k (snd (filterActive URL clk s gs k)) clk clk' \<Longrightarrow>
     filterActive URL clk' s gs k = filterActive URL clk s gs k"
proof (induction gs arbitrary: k)
  case Nil
  show ?case by simp
next
  case (Cons g gs)
  obtain a k1 where a: "isRuleActiveNow clk (schedule g) k = (a, k1)"
    by (cases "isRuleActiveNow clk (schedule g) k")
  then have k1: "k1 = k \<or> k1 = Suc k" using isRuleActiveNow_reads [of clk "schedule g" k] by auto
  obtain b k2 where b: "filterActive URL clk s gs k1 = (b, k2)"
    by (cases "filterActive URL clk s gs k1")
  then have k2: "k1 \<le> k2" using filterActive_mono [of k1 URL clk s gs] by simp
  have whole: "k1 \<le> snd (filterActive URL clk s (g # gs) k)"
    "snd (filterActive URL clk s (g # gs) k) \<le> k2"
    using a b k2 by (cases a; cases b; simp add: Let_def)+
  from Cons.prems have same: "\<forall>i. k \<le> i \<and> i < snd (filterActive URL clk s (g # gs) k)
      \<longrightarrow> clk i = clk' i"
    by (simp only: sameReadings_iff)
  have "k1 = Suc k \<longrightarrow> clk k = clk' k" using same whole(1) by auto
  then have a': "isRuleActiveNow clk' (schedule g) k = (a, k1)"
    using isRuleActiveNow_cong [of clk "schedule g" k clk'] a by simp
  show ?case
  proof (cases a)
    case (Inl e)
    with a a' show ?thesis by simp
  next
    case (Inr act)
    then have "snd (filterActive URL clk s (g # gs) k) = k2"
      using a b by (cases b) (simp_all add: Let_def)
    with same k1 have "\<forall>i. k1 \<le> i \<and> i < k2 \<longrightarrow> clk i = clk' i" by auto
    then have "sameReadings k1 (snd (filterActive URL clk s gs k1)) clk clk'"
      using b by (simp add: sameReadings_iff)
    then have "filterActive URL clk' s gs k1 = (b, k2)" using Cons.IH [of k1] b by simp
    with a a' b Inr show ?thesis by simp
  qed
qed

lemma getActiveRulesForSite_mono: "k \<le> snd (getActiveRulesForSite URL clk s config k)"
  by (simp add: getActiveRulesForSite_def filterActive_mono split: option.splits)

lemma getActiveRulesForSite_cong:
  "sameReadings k (snd (getActiveRulesForSite URL clk s config k)) clk clk' \<Longrightarrow>
     getActiveRulesForSite URL clk' s config k = getActiveRulesForSite URL clk s config k"
  by (simp add: getActiveRulesForSite_def filterActive_cong split: option.splits)

lemma firstExhausted_mono: "k \<le> snd (firstExhausted clk logs s rules k)"
proof (induction rules arbitrary: k)
  case Nil
  show ?case by simp
next
  case (Cons r rules)
  obtain m where c: "calculateRemainingAccesses clk logs (maxAccesses r) (duration r)
          (strictMode r) (sites r) s k = (m, Suc k)"
    using calculateRemainingAccesses_reads [of clk logs "maxAccesses r" "duration r"
        "strictMode r" "sites r" s k]
    by (cases "calculateRemainingAccesses clk logs (maxAccesses r) (duration r)
          (strictMode r) (sites r) s k") simp
  from Cons [of "Suc k"] have "k \<le> snd (firstExhausted clk logs s rules (Suc k))" by simp
  with c show ?case by simp
qed

lemma firstExhausted_cong:
  "sameReadings k (snd (firstExhausted clk logs s rules k)) clk clk' \<Longrightarrow>
     firstExhausted clk' logs s rules k = firstExhausted clk logs s rules k"
proof (induction rules arbitrary: k)
  case Nil
  show ?case by simp
next
  case (Cons r rules)
  obtain m where c: "calculateRemainingAccesses clk logs (maxAccesses r) (duration r)
          (strictMode r) (sites r) s k = (m, Suc k)"
    using calculateRemainingAccesses_reads [of clk logs "maxAccesses r" "duration r"
        "strictMode r" "sites r" s k]
    by (cases "calculateRemainingAccesses clk logs (maxAccesses r) (duration r)
          (strictMode r) (sites r) s k") simp
  have next_le: "Suc k \<le> snd (firstExhausted clk logs s rules (Suc k))"
    by (rule firstExhausted_mono)
  from Cons.prems have same: "\<forall>i. k \<le> i \<and> i < snd (firstExhausted clk logs s (r # rules) k)
      \<longrightarrow> clk i = clk' i"
    by (simp only: sameReadings_iff)
  have "Suc k \<le> snd (firstExhausted clk logs s (r # rules) k)"
    using c next_le by simp
  with same have "clk k = clk' k" by auto
  then have c': "calculateRemainingAccesses clk' logs (maxAccesses r) (duration r)
          (strictMode r) (sites r) s k = (m, Suc k)"
    using calculateRemainingAccesses_cong [of clk k clk'] c by simp
  show ?case
  proof (cases "m \<le> 0")
    case True
    with c c' show ?thesis by simp
  next
    case False
    with c have "snd (firstExhausted clk logs s (r # rules) k) =
        snd (firstExhausted clk logs s rules (Suc k))" by simp
    with same have "sameReadings (Suc k) (snd (firstExhausted clk logs s rules (Suc k))) clk clk'"
      by (simp add: sameReadings_iff)
    then have "firstExhausted clk' logs s rules (Suc k) = firstExhausted clk logs s rules (Suc k)"
      by (rule Cons.IH)
    with False c c' show ?thesis by simp
  qed
qed

lemma lowestLoop_mono: "k \<le> snd (lowestLoop clk logs s rules acc k)"
proof (induction rules arbitrary: acc k)
  case Nil
  show ?case by simp
next
  case (Cons r rules)
  obtain m where c: "calculateRemainingAccesses clk logs (maxAccesses r) (duration r)
          (strictMode r) (sites r) s k = (m, Suc k)"
    using calculateRemainingAccesses_reads [of clk logs "maxAccesses r" "duration r"
        "strictMode r" "sites r" s k]
    by (cases "calculateRemainingAccesses clk logs (maxAccesses r) (duration r)
          (strictMode r) (sites r) s k") simp
  from Cons [where acc = "js_min acc m" and k = "Suc k"]
  have "k \<le> snd (lowestLoop clk logs s rules (js_min acc m) (Suc k))" by simp
  with c show ?case by simp
qed

lemma lowestLoop_cong:
  "sameReadings k (snd (lowestLoop clk logs s rules acc k)) clk clk' \<Longrightarrow>
     lowestLoop clk' logs s rules acc k = lowestLoop clk logs s rules acc k"
proof (induction rules arbitrary: acc k)
  case Nil
  show ?case by simp
next
  case (Cons r rules)
  obtain m where c: "calculateRemainingAccesses clk logs (maxAccesses r) (duration r)
          (strictMode r) (sites r) s k = (m, Suc k)"
    using calculateRemainingAccesses_reads [of clk logs "maxAccesses r" "duration r"
        "strictMode r" "sites r" s k]
    by (cases "calculateRemainingAccesses clk logs (maxAccesses r) (duration r)
          (strictMode r) (sites r) s k") simp
  have next_le: "Suc k \<le> snd (lowestLoop clk logs s rules (js_min acc m) (Suc k))"
    by (rule lowestLoop_mono)
  from Cons.prems have same: "\<forall>i. k \<le> i \<and> i < snd (lowestLoop clk logs s (r # rules) acc k)
      \<longrightarrow> clk i = clk' i"
    by (simp only: sameReadings_iff)
  have whole: "snd (lowestLoop clk logs s (r # rules) acc k) =
      snd (lowestLoop clk logs s rules (js_min acc m) (Suc k))"
    using c by simp
  with same next_le have "clk k = clk' k" by auto
  then have c': "calculateRemainingAccesses clk' logs (maxAccesses r) (duration r)
          (strictMode r) (sites r) s k = (m, Suc k)"
    using calculateRemainingAccesses_cong [of clk k clk'] c by simp
  from same whole
  have "sameReadings (Suc k) (snd (lowestLoop clk logs s rules (js_min acc m) (Suc k))) clk clk'"
    by (simp add: sameReadings_iff)
  then have "lowestLoop clk' logs s rules (js_min acc m) (Suc k) =
      lowestLoop clk logs s rules (js_min acc m) (Suc k)"
    by (rule Cons.IH)
  with c c' show ?case by simp
qed

lemma shouldBlockAccess_cong:
  assumes "sameReadings k (snd (shouldBlockAccess URL clk s config logs k)) clk clk'"
  shows "shouldBlockAccess URL clk' s config logs k = shouldBlockAccess URL clk s config logs k"
proof -
  obtain a k1 where a: "getActiveRulesForSite URL clk s config k = (a, k1)"
    by (cases "getActiveRulesForSite URL clk s config k")
  then have k1: "k \<le> k1" using getActiveRulesForSite_mono [of k URL clk s config] by simp
  from assms have same: "\<forall>i. k \<le> i \<and> i < snd (shouldBlockAccess URL clk s config logs k)
      \<longrightarrow> clk i = clk' i"
    by (simp only: sameReadings_iff)
  show ?thesis
  proof (cases a)
    case (Inl e)
    with a have "snd (shouldBlockAccess URL clk s config logs k) = k1"
      by (simp add: shouldBlockAccess_def)
    with same a have "sameReadings k (snd (getActiveRulesForSite URL clk s config k)) clk clk'"
      by (simp add: sameReadings_iff)
    then have "getActiveRulesForSite URL clk' s config k = (a, k1)"
      using getActiveRulesForSite_cong [of k URL clk s config clk'] a by simp
    with a Inl show ?thesis by (simp add: shouldBlockAccess_def)
  next
    case (Inr rules)
    have k2: "k1 \<le> snd (firstExhausted clk logs s rules k1)" by (rule firstExhausted_mono)
    have whole: "snd (shouldBlockAccess URL clk s config logs k) =
        (if rules = [] then k1 else snd (firstExhausted clk logs s rules k1))"
      using a Inr by (simp add: shouldBlockAccess_def split: prod.splits)
    with same k2 have "\<forall>i. k \<le> i \<and> i < k1 \<longrightarrow> clk i = clk' i" by auto
    with a have "sameReadings k (snd (getActiveRulesForSite URL clk s config k)) clk clk'"
      by (simp add: sameReadings_iff)
    then have a': "getActiveRulesForSite URL clk' s config k = (a, k1)"
      using getActiveRulesForSite_cong [of k URL clk s config clk'] a by simp
    show ?thesis
    proof (cases "rules = []")
      case True
      with a a' Inr show ?thesis by (simp add: shouldBlockAccess_def)
    next
      case False
      with same whole k1
      have "sameReadings k1 (snd (firstExhausted clk logs s rules k1)) clk clk'"
        by (simp add: sameReadings_iff)
      then have "firstExhausted clk' logs s rules k1 = firstExhausted clk logs s rules k1"
        by (rule firstExhausted_cong)
      with a a' Inr show ?thesis by (simp add: shouldBlockAccess_def)
    qed
  qed
qed

lemma getMostRestrictiveCount_cong:
  assumes "sameReadings k (snd (getMostRestrictiveCount URL clk s config logs k)) clk clk'"
  shows "getMostRestrictiveCount URL clk' s config logs k =
           getMostRestrictiveCount URL clk s config logs k"
proof -
  obtain a k1 where a: "getActiveRulesForSite URL clk s config k = (a, k1)"
    by (cases "getActiveRulesForSite URL clk s config k")
  then have k1: "k \<le> k1" using getActiveRulesForSite_mono [of k URL clk s config] by simp
  from assms
  have same: "\<forall>i. k \<le> i \<and> i < snd (getMostRestrictiveCount URL clk s config logs k)
      \<longrightarrow> clk i = clk' i"
    by (simp only: sameReadings_iff)
  show ?thesis
  proof (cases a)
    case (Inl e)
    with a have "snd (getMostRestrictiveCount URL clk s config logs k) = k1"
      by (simp add: getMostRestrictiveCount_def)
    with same a have "sameReadings k (snd (getActiveRulesForSite URL clk s config k)) clk clk'"
      by (simp add: sameReadings_iff)
    then have "getActiveRulesForSite URL clk' s config k = (a, k1)"
      using getActiveRulesForSite_cong [of k URL clk s config clk'] a by simp
    with a Inl show ?thesis by (simp add: getMostRestrictiveCount_def)
  next
    case (Inr rules)
    have k2: "k1 \<le> snd (lowestLoop clk logs s rules Infinity k1)" by (rule lowestLoop_mono)
    have whole: "snd (getMostRestrictiveCount URL clk s config logs k) =
        (if rules = [] then k1 else snd (lowestLoop clk logs s rules Infinity k1))"
      using a Inr by (simp add: getMostRestrictiveCount_def split: prod.splits)
    with same k2 have "\<forall>i. k \<le> i \<and> i < k1 \<longrightarrow> clk i = clk' i" by auto
    with a have "sameReadings k (snd (getActiveRulesForSite URL clk s config k)) clk clk'"
      by (simp add: sameReadings_iff)
    then have a': "getActiveRulesForSite URL clk' s config k = (a, k1)"
      using getActiveRulesForSite_cong [of k URL clk s config clk'] a by simp
    show ?thesis
    proof (cases "rules = []")
      case True
      with a a' Inr show ?thesis by (simp add: getMostRestrictiveCount_def)
    next
      case False
      with same whole k1
      have "sameReadings k1 (snd (lowestLoop clk logs s rules Infinity k1)) clk clk'"
        by (simp add: sameReadings_iff)
      then have "lowestLoop clk' logs s rules Infinity k1 =
          lowestLoop clk logs s rules Infinity k1"
        by (rule lowestLoop_cong)
      with a a' Inr show ?thesis by (simp add: getMostRestrictiveCount_def)
    qed
  qed
qed

text \<open>
  C9, as the code has it.  The instant is not an argument of the engine: it is read from
  the host clock, at most once by each schedule check and exactly once by each
  computation of a remaining count.  Each operation is a function of its arguments and of
  the readings it takes: on two clocks that give the same readings during the evaluation,
  the result and the number of readings are the same.
\<close>

theorem engine_determined_by_readings:
  "(sameReadings k (snd (calculateRemainingAccesses clk logs m d st sts s k)) clk clk' \<longrightarrow>
      calculateRemainingAccesses clk' logs m d st sts s k =
      calculateRemainingAccesses clk logs m d st sts s k)
   \<and> (sameReadings k (snd (getActiveRulesForSite URL clk s config k)) clk clk' \<longrightarrow>
      getActiveRulesForSite URL clk' s config k = getActiveRulesForSite URL clk s config k)
   \<and> (sameReadings k (snd (shouldBlockAccess URL clk s config logs k)) clk clk' \<longrightarrow>
      shouldBlockAccess URL clk' s config logs k = shouldBlockAccess URL clk s config logs k)
   \<and> (sameReadings k (snd (getMostRestrictiveCount URL clk s config logs k)) clk clk' \<longrightarrow>
      getMostRestrictiveCount URL clk' s config logs k =
      getMostRestrictiveCount URL clk s config logs k)
   \<and> snd (calculateRemainingAccesses clk logs m d st sts s k) = Suc k
   \<and> (snd (isRuleActiveNow clk sched k) = k \<or> snd (isRuleActiveNow clk sched k) = Suc k)"
proof -
  have "sameReadings k (Suc k) clk clk' \<longrightarrow> clk k = clk' k"
    by (simp add: sameReadings_iff)
  then have 1: "sameReadings k (snd (calculateRemainingAccesses clk logs m d st sts s k)) clk clk'
      \<longrightarrow> calculateRemainingAccesses clk' logs m d st sts s k =
          calculateRemainingAccesses clk logs m d st sts s k"
    using calculateRemainingAccesses_cong [of clk k clk' logs m d st sts s]
    by (simp add: calculateRemainingAccesses_reads)
  show ?thesis
    using 1 getActiveRulesForSite_cong [of k URL clk s config clk']
      shouldBlockAccess_cong [of k URL clk s config logs clk']
      getMostRestrictiveCount_cong [of k URL clk s config logs clk']
      calculateRemainingAccesses_reads [of clk logs m d st sts s k]
      isRuleActiveNow_reads [of clk sched k]
    by blast
qed

text \<open>
  The decision for \<open>slack.com\<close> reads the clock twice; a clock with the same first two
  readings gives the same decision and the same count.
\<close>

theorem engine_determined_by_readings_witness:
  "sameReadings 0 2 tickingClock otherClock
   \<and> snd (shouldBlockAccess simpleURL tickingClock ''slack.com'' workChatConfig hourOldVisit 0) = 2
   \<and> shouldBlockAccess simpleURL otherClock ''slack.com'' workChatConfig hourOldVisit 0 =
       shouldBlockAccess simpleURL tickingClock ''slack.com'' workChatConfig hourOldVisit 0
   \<and> getMostRestrictiveCount simpleURL otherClock ''slack.com'' workChatConfig hourOldVisit 0 =
       getMostRestrictiveCount simpleURL tickingClock ''slack.com'' workChatConfig hourOldVisit 0
   \<and> getActiveRulesForSite simpleURL otherClock ''slack.com'' workChatConfig 0 =
       getActiveRulesForSite simpleURL tickingClock ''slack.com'' workChatConfig 0
   \<and> calculateRemainingAccesses otherClock hourOldVisit 1 60 False [''slack.com''] ''slack.com'' 0 =
       calculateRemainingAccesses tickingClock hourOldVisit 1 60 False [''slack.com'']
         ''slack.com'' 0"
proof -
  have s2: "sameReadings 0 2 tickingClock otherClock"
    and s1: "sameReadings 0 1 tickingClock otherClock"
    by code_simp+
  have n: "snd (shouldBlockAccess simpleURL tickingClock ''slack.com'' workChatConfig
             hourOldVisit 0) = 2"
    "snd (getMostRestrictiveCount simpleURL tickingClock ''slack.com'' workChatConfig
             hourOldVisit 0) = 2"
    "snd (getActiveRulesForSite simpleURL tickingClock ''slack.com'' workChatConfig 0) = 1"
    "snd (calculateRemainingAccesses tickingClock hourOldVisit 1 60 False [''slack.com'']
            ''slack.com'' 0) = 1"
    by code_simp+
  from engine_determined_by_readings [where k = 0 and clk = tickingClock and clk' = otherClock
      and URL = simpleURL and s = "''slack.com''" and config = workChatConfig
      and logs = hourOldVisit and m = 1 and d = 60 and st = False and sts = "[''slack.com'']"]
    s1 s2 n
  show ?thesis by simp
qed

text \<open>
  C9, as the specification states it, fails.  With the same site, configuration and
  records the decision is a block on the clock that reads Monday 17:00 and an allowance
  on the clock that reads Sunday 10:00; the evaluation reads the clock twice; and when
  the clock advances by one millisecond between the two readings, the evaluation that
  starts on Monday at 17:00 allows what the engine at that instant blocks.
\<close>

theorem decide_rereads_clock:
  "fst (shouldBlockAccess simpleURL (frozen monday1700) ''slack.com'' workChatConfig
          hourOldVisit 0) = Inr (blockedBy workChat)
   \<and> fst (shouldBlockAccess simpleURL (frozen sunday1000) ''slack.com'' workChatConfig
          hourOldVisit 0) = Inr NoBlock
   \<and> snd (shouldBlockAccess simpleURL (frozen monday1700) ''slack.com'' workChatConfig
          hourOldVisit 0) = 2
   \<and> fst (shouldBlockAccess simpleURL tickingClock ''slack.com'' workChatConfig
          hourOldVisit 0) = Inr NoBlock"
  by code_simp

section \<open>The projected unblock time\<close>

lemma sort_key_first_is_least:
  assumes "sort_key f xs = y # ys"
  shows "f y = Min (f ` set xs)"
proof -
  have "sorted (map f (y # ys))" using sorted_sort_key [of f xs] assms by simp
  then have le: "\<forall>z\<in>set (y # ys). f y \<le> f z" by auto
  have st: "set (y # ys) = set xs" using set_sort [of f xs] assms by simp
  show ?thesis
  proof (rule Min_eqI [symmetric])
    show "finite (f ` set xs)" by simp
    show "\<And>v. v \<in> f ` set xs \<Longrightarrow> f y \<le> v" using le st by auto
    show "f y \<in> f ` set xs" using st by auto
  qed
qed

text \<open>
  What \<open>calculateUnblockTime\<close> computes: no window is applied; the relevant records are
  those of the site itself, or in strict mode those that the full pattern matcher
  (domain and path) accepts; the result is the least of their timestamps plus the
  duration, and \<open>null\<close> when there is none.
\<close>

lemma calculateUnblockTime_oldest:
  "calculateUnblockTime URL s rule logs =
     (let relevant =
            filter (\<lambda>log. if strictMode rule
                           then list_ex (\<lambda>pattern.
                                  matchesSitePattern URL (''https://'' @ site log) pattern)
                                  (sites rule)
                           else site log = s) logs
      in if relevant = [] then None
         else Some (Min (timestamp ` set relevant) + duration rule * 60000))"
proof -
  define rel where "rel =
    filter (\<lambda>log. if strictMode rule
                   then list_ex (\<lambda>pattern.
                          matchesSitePattern URL (''https://'' @ site log) pattern)
                          (sites rule)
                   else site log = s) logs"
  have u: "calculateUnblockTime URL s rule logs =
      (case sort_key timestamp rel of
         [] \<Rightarrow> None
       | oldestAccess # _ \<Rightarrow> Some (timestamp oldestAccess + duration rule * 60 * 1000))"
    by (cases "strictMode rule") (simp_all add: calculateUnblockTime_def Let_def rel_def)
  have "calculateUnblockTime URL s rule logs =
      (if rel = [] then None else Some (Min (timestamp ` set rel) + duration rule * 60000))"
  proof (cases "sort_key timestamp rel")
    case Nil
    then have "length rel = 0" using length_sort [of timestamp rel] by simp
    with u Nil show ?thesis by simp
  next
    case (Cons y ys)
    then have "rel \<noteq> []" using length_sort [of timestamp rel] by auto
    with u Cons sort_key_first_is_least [OF Cons] show ?thesis by simp
  qed
  then show ?thesis by (simp add: Let_def rel_def)
qed

text \<open>
  C7 fails on the code for a strict rule group with a path pattern.  The group
  \<open>chatAndFeed\<close> is strict and lists \<open>discord.com/channels\<close> and \<open>twitter.com\<close>; after one
  visit of \<open>discord.com\<close> the shared allowance of 1 is used up and \<open>twitter.com\<close> is
  blocked, the visit being counted by the domain of the pattern.  The unblock time for
  that block is \<open>null\<close>: \<open>calculateUnblockTime\<close> applies the path of the pattern to the
  record, which has none, and finds no relevant record.
\<close>

theorem calculateUnblockTime_path_pattern:
  "fst (shouldBlockAccess simpleURL (frozen monday1000) ''twitter.com'' chatAndFeedConfig
          discordVisit 0) = Inr (blockedBy chatAndFeed)
   \<and> remainingAt monday1000 discordVisit ''twitter.com'' chatAndFeed = 0
   \<and> spec_domainMatches ''discord.com'' ''discord.com/channels''
   \<and> calculateUnblockTime simpleURL ''twitter.com'' chatAndFeed discordVisit = None"
  by code_simp


end
